theory Spec2Isabelle
  imports Main "HOL-Library.Word"
begin

section \<open>The command-line driver: \<^verbatim>\<open>src/main.cpp\<close>\<close>

text \<open>
  The driver reads its options, builds a file source and runs the duplicate finder with
  one of two checksums. Everything it does that a caller can observe is what it writes
  to the two output streams and the status the process ends with, so the model threads
  a \<open>world\<close> holding the text written so far, and every call either returns or throws.
\<close>

subsection \<open>Streams, exceptions, outcomes\<close>

record world =
  cout :: string
  cerr :: string

text \<open>
  The handlers of \<open>main\<close> tell two kinds of exception apart: one derived from
  \<^verbatim>\<open>std::exception\<close>, with its \<^verbatim>\<open>what()\<close> text, and anything else.
\<close>

datatype exn = std_exception string | unknown_exception

datatype 'a outcome = Returned 'a world | Thrown exn world

text \<open>Sequencing two calls: an exception of the first skips the second.\<close>

definition and_then :: "'a outcome \<Rightarrow> ('a \<Rightarrow> world \<Rightarrow> 'b outcome) \<Rightarrow> 'b outcome" where
  "and_then r k = (case r of Returned x w \<Rightarrow> k x w | Thrown e w \<Rightarrow> Thrown e w)"



subsection \<open>Options\<close>

text \<open>
  \<^verbatim>\<open>my::ProgramOptions\<close>, with the members \<open>main\<close> and \<open>parse_command_line\<close> use.
  The sizes are \<^verbatim>\<open>std::size_t\<close>; the driver only stores, compares and passes them on,
  so they are natural numbers here.
\<close>

record ProgramOptions =
  show_help :: bool
  block_size :: nat
  hash_algorithm :: string
  min_file_size :: nat
  root_directories :: "string list"
  exclude_directories :: "string list"
  masks_include :: "string list"
  masks_exclude :: "string list"
  recursive :: bool
  case_sensitive :: bool

text \<open>
  What Boost.Program_options finds on the command line, option by option: \<open>None\<close> for
  an option that does not occur, the switches as booleans. Boost is a library outside
  the repository; its reading of \<^verbatim>\<open>argv\<close> is an input of the model, either such a
  record or the \<^verbatim>\<open>what()\<close> text of the \<^verbatim>\<open>po::error\<close> it threw (\<open>Inl\<close>).
\<close>

record command_line =
  opt_help :: bool
  opt_size :: "nat option"
  opt_hash :: "string option"
  opt_min_file_size :: "nat option"
  opt_root_dir :: "string list option"
  opt_exclude_dir :: "string list option"
  opt_mask_include :: "string list option"
  opt_mask_exclude :: "string list option"
  opt_recursive :: bool
  opt_case_sensitive :: bool

text \<open>The two template arguments the driver instantiates the finder with.\<close>

datatype hash_kind = Crc32 | Crc16

text \<open>
  The functions \<open>main\<close> calls whose bodies are in other files of the repository
  (\<^verbatim>\<open>print_help\<close>, \<^verbatim>\<open>validate_options\<close>, \<^verbatim>\<open>create_filesystem_traverser\<close>,
  \<^verbatim>\<open>find_and_print_duplicates\<close>), and the value \<^verbatim>\<open>show_help\<close> has in a
  default-constructed \<^verbatim>\<open>ProgramOptions\<close>, are parameters: every theorem about
  \<open>main\<close> holds whatever they are. \<open>'t\<close> is the type of the traverser.
\<close>

record 't collaborators =
  show_help_init :: bool
  print_help :: "world \<Rightarrow> world"
  validate_options :: "ProgramOptions \<Rightarrow> world \<Rightarrow> unit outcome"
  create_filesystem_traverser :: "ProgramOptions \<Rightarrow> world \<Rightarrow> 't outcome"
  find_and_print_duplicates :: "hash_kind \<Rightarrow> nat \<Rightarrow> 't \<Rightarrow> world \<Rightarrow> unit outcome"

subsection \<open>\<^verbatim>\<open>parse_command_line\<close> (lines 70 to 113)\<close>

text \<open>
  The text of Boost's \<^verbatim>\<open>required_option\<close> error for \<^verbatim>\<open>root_dir\<close>, thrown by
  \<^verbatim>\<open>po::notify\<close>.
\<close>

definition required_root_dir_what :: string where
  "required_root_dir_what = ''the option '--root_dir' is required but missing''"

definition parse_error_what :: "string \<Rightarrow> string" where
  "parse_error_what what =
     ''Error parsing command-line arguments: '' @ what @
     ''\<newline>Use --help for usage information.''"

text \<open>
  \<^verbatim>\<open>po::store\<close> gives an option that does not occur its \<^verbatim>\<open>default_value\<close>
  (4096, \<^verbatim>\<open>"crc32"\<close>, 1) and \<^verbatim>\<open>po::notify\<close> writes the values into the members
  and throws when the required \<^verbatim>\<open>root_dir\<close> is missing; a \<^verbatim>\<open>po::error\<close> is
  rethrown as a \<^verbatim>\<open>std::runtime_error\<close>. A vector option that does not occur leaves
  its member empty. The help test comes last.
\<close>

definition stored_options :: "bool \<Rightarrow> command_line \<Rightarrow> string list \<Rightarrow> ProgramOptions" where
  "stored_options init cl roots =
     \<lparr> show_help = init,
       block_size = (case opt_size cl of None \<Rightarrow> 4096 | Some n \<Rightarrow> n),
       hash_algorithm = (case opt_hash cl of None \<Rightarrow> ''crc32'' | Some h \<Rightarrow> h),
       min_file_size = (case opt_min_file_size cl of None \<Rightarrow> 1 | Some n \<Rightarrow> n),
       root_directories = roots,
       exclude_directories = (case opt_exclude_dir cl of None \<Rightarrow> [] | Some ds \<Rightarrow> ds),
       masks_include = (case opt_mask_include cl of None \<Rightarrow> [] | Some ms \<Rightarrow> ms),
       masks_exclude = (case opt_mask_exclude cl of None \<Rightarrow> [] | Some ms \<Rightarrow> ms),
       recursive = opt_recursive cl,
       case_sensitive = opt_case_sensitive cl \<rparr>"

definition parse_command_line ::
  "'t collaborators \<Rightarrow> string + command_line \<Rightarrow> world \<Rightarrow> ProgramOptions outcome" where
  "parse_command_line E argv w =
     (case argv of
        Inl what \<Rightarrow> Thrown (std_exception (parse_error_what what)) w
      | Inr cl \<Rightarrow>
          (case opt_root_dir cl of
             None \<Rightarrow> Thrown (std_exception (parse_error_what required_root_dir_what)) w
           | Some roots \<Rightarrow>
               if opt_help cl
               then Returned ((stored_options (show_help_init E) cl roots)\<lparr>show_help := True\<rparr>)
                      (print_help E w)
               else Returned (stored_options (show_help_init E) cl roots) w))"

subsection \<open>\<open>main\<close> (lines 35 to 67)\<close>

definition incorrect_hash_what :: "string \<Rightarrow> string" where
  "incorrect_hash_what h =
     ''Incorrect hash algorithm: '' @ h @ ''. Supported algorithms are 'crc32' and 'crc16'.''"

text \<open>The body of the function try block.\<close>

definition main_try :: "'t collaborators \<Rightarrow> string + command_line \<Rightarrow> world \<Rightarrow> int outcome" where
  "main_try E argv w =
     and_then (parse_command_line E argv w) (\<lambda>options w1.
       if show_help options then Returned 0 w1
       else
         and_then (validate_options E options w1) (\<lambda>_ w2.
         and_then (create_filesystem_traverser E options w2) (\<lambda>filesystem_traverser w3.
           if hash_algorithm options = ''crc32'' then
             and_then (find_and_print_duplicates E Crc32 (block_size options)
                         filesystem_traverser w3)
               (\<lambda>_ w4. Returned 0 w4)
           else if hash_algorithm options = ''crc16'' then
             and_then (find_and_print_duplicates E Crc16 (block_size options)
                         filesystem_traverser w3)
               (\<lambda>_ w4. Returned 0 w4)
           else Thrown (std_exception (incorrect_hash_what (hash_algorithm options))) w3)))"

text \<open>What each of the two handlers writes to the error stream.\<close>

fun diagnostic :: "exn \<Rightarrow> string" where
  "diagnostic (std_exception what) = ''Error: '' @ what @ ''\<newline>''"
| "diagnostic unknown_exception = ''Unknown error occurred\<newline>''"

text \<open>
  The handlers of the function try block, applied to what its body did: a status that
  the body returns is the status of the process, and an exception becomes status 1
  after its diagnostic is written.
\<close>

fun handlers :: "int outcome \<Rightarrow> int \<times> world" where
  "handlers (Returned status w) = (status, w)"
| "handlers (Thrown e w) = (1, w\<lparr>cerr := cerr w @ diagnostic e\<rparr>)"

text \<open>The process: the status it ends with and the streams as it leaves them.\<close>

definition main :: "'t collaborators \<Rightarrow> string + command_line \<Rightarrow> world \<Rightarrow> int \<times> world" where
  "main E argv w = handlers (main_try E argv w)"

subsection \<open>The rest of the earlier \<open>main\<close> (lines 20 to 33 and 114 to 173)\<close>


















subsection \<open>The minimum file size\<close>

text \<open>
  Modelled from the spec: the traverser that applies the minimum file size is not in
  \<^verbatim>\<open>src/\<close>. The spec calls the option the minimum file size to compare and has the
  file source hand the finder a sequence of paths with sizes, already filtered by it: a
  candidate stays when its size is at least the minimum.
\<close>

definition min_file_size_filter :: "nat \<Rightarrow> (string \<times> nat) list \<Rightarrow> (string \<times> nat) list" where
  "min_file_size_filter m files = filter (\<lambda>(path, n). m \<le> n) files"

subsection \<open>Concrete collaborators and inputs\<close>

text \<open>
  Collaborators that never fail: the help text is one line, validation and the creation
  of the traverser accept everything, and the finder reports no duplicates.
\<close>

definition quiet :: "unit collaborators" where
  "quiet =
     \<lparr> show_help_init = False,
       print_help = (\<lambda>w. w\<lparr>cout := cout w @ ''Allowed options\<newline>''\<rparr>),
       validate_options = (\<lambda>_ w. Returned () w),
       create_filesystem_traverser = (\<lambda>_ w. Returned () w),
       find_and_print_duplicates = (\<lambda>_ _ _ w. Returned () w) \<rparr>"



definition silent :: world where
  "silent = \<lparr>cout = [], cerr = []\<rparr>"

text \<open>The command line \<^verbatim>\<open>--root_dir d\<close>, every other option left out.\<close>

definition only_root_dir :: command_line where
  "only_root_dir =
     \<lparr> opt_help = False, opt_size = None, opt_hash = None, opt_min_file_size = None,
       opt_root_dir = Some [''d''], opt_exclude_dir = None, opt_mask_include = None,
       opt_mask_exclude = None, opt_recursive = False, opt_case_sensitive = False \<rparr>"



section \<open>The duplicate finder\<close>

text \<open>
  The finder and the two checksums are in files of the repository that are not among
  its sources here (\<^verbatim>\<open>duplicate_finder.h\<close>, \<^verbatim>\<open>hash/crc32.h\<close>, \<^verbatim>\<open>hash/crc16.h\<close>).
  This section follows the specification's description of them.
\<close>

type_synonym byte = "8 word"

text \<open>
  Modelled from the spec: the hash function, whose code is missing. The spec gives its
  contract only, an initial state, an update that folds a block of bytes into a state
  and a digest of fixed width read off a state; \<open>'s\<close> is the type of the states and
  \<open>'d\<close> the type of the digests. The finder is the same for every hash.
\<close>

record ('s, 'd) hash =
  initial_state :: 's
  update :: "'s \<Rightarrow> byte list \<Rightarrow> 's"
  digest :: "'s \<Rightarrow> 'd"

text \<open>
  Modelled from the spec: reading the next block of a candidate, which the missing
  finder does. The block starts at the cursor and has the configured size, and the last
  block of a file may be shorter. The files are a function from paths to contents.
\<close>

definition read_block :: "(string \<Rightarrow> byte list) \<Rightarrow> string \<Rightarrow> nat \<Rightarrow> nat \<Rightarrow> byte list" where
  "read_block fs path cursor bs = take bs (drop cursor (fs path))"

text \<open>
  Modelled from the spec: the regrouping of the missing finder, a mapping from a key to
  the sub-group of the members with that key, rebuilt from the membership it is given.
  The sub-groups come in the order in which their first members occur, and the members
  of each keep their order.
\<close>

fun partition_by :: "('a \<Rightarrow> 'k) \<Rightarrow> 'a list \<Rightarrow> 'a list list" where
  "partition_by key [] = []"
| "partition_by key (x # xs) =
     (x # filter (\<lambda>y. key y = key x) xs) #
     partition_by key (filter (\<lambda>y. key y \<noteq> key x) xs)"

text \<open>
  Modelled from the spec: step 2a of the missing finder for one candidate, which reads
  the candidate's next block and folds it into the candidate's hash state. A member of
  a group is a path with its hash state; the cursor is shared by the group.
\<close>

definition hash_next ::
  "('s, 'd) hash \<Rightarrow> (string \<Rightarrow> byte list) \<Rightarrow> nat \<Rightarrow> nat \<Rightarrow> string \<times> 's \<Rightarrow> string \<times> 's" where
  "hash_next H fs bs cursor m = (fst m, update H (snd m) (read_block fs (fst m) cursor bs))"

text \<open>
  Modelled from the spec: step 2 of the missing finder for one group of candidates of
  length \<open>len\<close>. A group whose cursor has reached the length is terminal and is emitted
  if it still has two members or more. Otherwise every member hashes its next block,
  the group is split by the digests so far, the sub-groups of one member are dropped,
  and each sub-group that is left goes on from the advanced cursor. The finder rejects
  a block size of zero before it gets here; the test of it only makes the recursion
  total.
\<close>

function refine ::
  "('s, 'd) hash \<Rightarrow> (string \<Rightarrow> byte list) \<Rightarrow> nat \<Rightarrow> nat \<Rightarrow> nat \<Rightarrow> (string \<times> 's) list \<Rightarrow>
   string list list" where
  "refine H fs bs len cursor members =
     (if len \<le> cursor \<or> bs = 0 then (if 2 \<le> length members then [map fst members] else [])
      else
        concat (map (refine H fs bs len (cursor + bs))
          (filter (\<lambda>g. 2 \<le> length g)
             (partition_by (\<lambda>m. digest H (snd m))
                (map (hash_next H fs bs cursor) members)))))"
  by pat_completeness auto
termination
  by (relation "measure (\<lambda>(H, fs, bs, len, cursor, members). len - cursor)") auto

declare refine.simps [simp del]

datatype finder_error = Invalid_block_size

text \<open>
  Modelled from the spec: the missing finder as a whole, over the candidates of the file
  source, each a path with its byte length. A block size of zero is rejected before any
  group is processed. The candidates are bucketed by length, the buckets of fewer than
  two members are discarded, and every other bucket is an initial group whose members
  start from the initial hash state at cursor 0. The result is the groups emitted, in
  the order of the buckets.
\<close>

definition duplicate_finder ::
  "('s, 'd) hash \<Rightarrow> nat \<Rightarrow> (string \<Rightarrow> byte list) \<Rightarrow> (string \<times> nat) list \<Rightarrow>
   finder_error + string list list" where
  "duplicate_finder H bs fs candidates =
     (if bs = 0 then Inl Invalid_block_size
      else Inr (concat (map (\<lambda>bucket. refine H fs bs (snd (hd bucket)) 0
                               (map (\<lambda>c. (fst c, initial_state H)) bucket))
                 (filter (\<lambda>g. 2 \<le> length g) (partition_by snd candidates)))))"

text \<open>
  Modelled from the spec: the digests so far of one file, as the missing finder sees
  them, the digest after each block from the cursor on, up to the length \<open>len\<close>, starting
  from the state \<open>s\<close>.
\<close>

function digests_so_far ::
  "('s, 'd) hash \<Rightarrow> nat \<Rightarrow> nat \<Rightarrow> nat \<Rightarrow> byte list \<Rightarrow> 's \<Rightarrow> 'd list" where
  "digests_so_far H bs len cursor content s =
     (if len \<le> cursor \<or> bs = 0 then []
      else digest H (update H s (take bs (drop cursor content))) #
           digests_so_far H bs len (cursor + bs) content
             (update H s (take bs (drop cursor content))))"
  by pat_completeness auto
termination
  by (relation "measure (\<lambda>(H, bs, len, cursor, content, s). len - cursor)") auto

declare digests_so_far.simps [simp del]

text \<open>Two paths are together when one group holds both.\<close>

definition together :: "'a list list \<Rightarrow> 'a \<Rightarrow> 'a \<Rightarrow> bool" where
  "together groups p q = (\<exists>g \<in> set groups. p \<in> set g \<and> q \<in> set g)"

subsection \<open>Concrete hashes and files\<close>

text \<open>
  A hash to run the finder on examples, the sum of the bytes modulo \<open>2 ^ 16\<close>. It is not
  one of the two checksums of the repository.
\<close>

definition sum16 :: "(16 word, 16 word) hash" where
  "sum16 =
     \<lparr> initial_state = 0,
       update = (\<lambda>s block. fold (\<lambda>b a. a + ucast b) block s),
       digest = id \<rparr>"

text \<open>
  The files of the spec's scenario A, \<^verbatim>\<open>abcabc\<close> twice and \<^verbatim>\<open>abcabd\<close>, and a file of
  another length.
\<close>

definition abc :: "string \<Rightarrow> byte list" where
  "abc =
     (\<lambda>_. [])(''F1'' := [97, 98, 99, 97, 98, 99], ''F2'' := [97, 98, 99, 97, 98, 99],
              ''F3'' := [97, 98, 99, 97, 98, 100], ''G'' := [1, 2, 3])"

definition scenario_a :: "(string \<times> nat) list" where
  "scenario_a = [(''F1'', 6), (''G'', 3), (''F2'', 6), (''F3'', 6)]"

text \<open>Two files \<^verbatim>\<open>p\<close> and \<^verbatim>\<open>q\<close> with the given contents.\<close>

definition two_files :: "byte list \<Rightarrow> byte list \<Rightarrow> string \<Rightarrow> byte list" where
  "two_files a b = (\<lambda>_. [])(''p'' := a, ''q'' := b)"

section \<open>Properties of the driver\<close>


lemma parse_command_line_find:
  "parse_command_line (E\<lparr>find_and_print_duplicates := f\<rparr>) argv w = parse_command_line E argv w"
  by (simp add: parse_command_line_def split: sum.splits option.splits)




lemma parse_command_line_returns:
  "opt_root_dir cl = Some roots \<Longrightarrow>
   \<exists>options. parse_command_line E (Inr cl) w =
       Returned options (if opt_help cl then print_help E w else w) \<and>
     show_help options = (opt_help cl \<or> show_help_init E) \<and>
     block_size options = (case opt_size cl of None \<Rightarrow> 4096 | Some n \<Rightarrow> n) \<and>
     hash_algorithm options = (case opt_hash cl of None \<Rightarrow> ''crc32'' | Some h \<Rightarrow> h)"
  by (simp add: parse_command_line_def stored_options_def)

lemma main_help:
  "opt_root_dir cl = Some roots \<Longrightarrow> opt_help cl \<Longrightarrow> main E (Inr cl) w = (0, print_help E w)"
  by (simp add: main_def main_try_def parse_command_line_def and_then_def)












text \<open>
  C7, amended. When the command line parses and help is not asked for, a name other
  than \<^verbatim>\<open>crc32\<close> and \<^verbatim>\<open>crc16\<close> ends the process with status 1 whatever the finder
  is, so without running it; when the validation and the creation of the traverser
  return as well, the name selects the run: \<^verbatim>\<open>crc32\<close> and \<^verbatim>\<open>crc16\<close> run the
  finder with the checksum of that name, and any other name writes the diagnostic that
  names it and ends with status 1. A command line with its root directories parses,
  to the name it gives or to \<^verbatim>\<open>crc32\<close>; when it asks for help the process prints the
  help and ends with status 0, whatever the name.
\<close>

theorem main_hash_algorithm:
  "(parse_command_line E argv w = Returned options w1 \<and> \<not> show_help options \<longrightarrow>
      (hash_algorithm options \<noteq> ''crc32'' \<and> hash_algorithm options \<noteq> ''crc16'' \<longrightarrow>
         fst (main E argv w) = 1 \<and>
         (\<forall>f. main (E\<lparr>find_and_print_duplicates := f\<rparr>) argv w = main E argv w)) \<and>
      (validate_options E options w1 = Returned u w2 \<and>
       create_filesystem_traverser E options w2 = Returned t w3 \<longrightarrow>
         main E argv w =
           (if hash_algorithm options = ''crc32'' then
              handlers (and_then (find_and_print_duplicates E Crc32 (block_size options) t w3)
                          (\<lambda>_ w4. Returned 0 w4))
            else if hash_algorithm options = ''crc16'' then
              handlers (and_then (find_and_print_duplicates E Crc16 (block_size options) t w3)
                          (\<lambda>_ w4. Returned 0 w4))
            else
              (1, w3\<lparr>cerr := cerr w3 @ ''Error: Incorrect hash algorithm: '' @
                       hash_algorithm options @
                       ''. Supported algorithms are 'crc32' and 'crc16'.\<newline>''\<rparr>)))) \<and>
   (opt_root_dir cl = Some roots \<longrightarrow>
      (\<exists>options. parse_command_line E (Inr cl) w =
           Returned options (if opt_help cl then print_help E w else w) \<and>
         show_help options = (opt_help cl \<or> show_help_init E) \<and>
         hash_algorithm options = (case opt_hash cl of None \<Rightarrow> ''crc32'' | Some h \<Rightarrow> h)) \<and>
      (opt_help cl \<longrightarrow> main E (Inr cl) w = (0, print_help E w)))"
proof (intro conjI impI allI)
  assume parsed: "parse_command_line E argv w = Returned options w1 \<and> \<not> show_help options"
  assume unsupported:
    "hash_algorithm options \<noteq> ''crc32'' \<and> hash_algorithm options \<noteq> ''crc16''"
  have "\<exists>e w'. main_try E argv w = Thrown e w'"
    using parsed unsupported unfolding main_try_def and_then_def
    by (auto split: outcome.splits)
  then show "fst (main E argv w) = 1" by (auto simp: main_def)
  fix f
  show "main (E\<lparr>find_and_print_duplicates := f\<rparr>) argv w = main E argv w"
    using parsed unsupported
    by (simp add: main_def main_try_def parse_command_line_find and_then_def
        split: outcome.splits)
next
  assume "parse_command_line E argv w = Returned options w1 \<and> \<not> show_help options"
    and "validate_options E options w1 = Returned u w2 \<and>
      create_filesystem_traverser E options w2 = Returned t w3"
  then show "main E argv w =
           (if hash_algorithm options = ''crc32'' then
              handlers (and_then (find_and_print_duplicates E Crc32 (block_size options) t w3)
                          (\<lambda>_ w4. Returned 0 w4))
            else if hash_algorithm options = ''crc16'' then
              handlers (and_then (find_and_print_duplicates E Crc16 (block_size options) t w3)
                          (\<lambda>_ w4. Returned 0 w4))
            else
              (1, w3\<lparr>cerr := cerr w3 @ ''Error: Incorrect hash algorithm: '' @
                       hash_algorithm options @
                       ''. Supported algorithms are 'crc32' and 'crc16'.\<newline>''\<rparr>))"
    by (simp add: main_def main_try_def and_then_def incorrect_hash_what_def)
next
  assume "opt_root_dir cl = Some roots"
  then show "\<exists>options. parse_command_line E (Inr cl) w =
           Returned options (if opt_help cl then print_help E w else w) \<and>
         show_help options = (opt_help cl \<or> show_help_init E) \<and>
         hash_algorithm options = (case opt_hash cl of None \<Rightarrow> ''crc32'' | Some h \<Rightarrow> h)"
    using parse_command_line_returns [of cl roots E w] by blast
next
  assume "opt_root_dir cl = Some roots" and "opt_help cl"
  then show "main E (Inr cl) w = (0, print_help E w)"
    by (rule main_help)
qed

lemma parse_md5:
  "parse_command_line quiet (Inr (only_root_dir\<lparr>opt_hash := Some ''md5''\<rparr>)) silent =
     Returned (stored_options False (only_root_dir\<lparr>opt_hash := Some ''md5''\<rparr>) [''d'']) silent"
  by (simp add: parse_command_line_def quiet_def only_root_dir_def)

text \<open>
  The command lines \<^verbatim>\<open>--root_dir d --hash md5\<close> and \<^verbatim>\<open>--help --root_dir d --hash sha1\<close>.
\<close>

theorem main_hash_algorithm_witness:
  "fst (main quiet (Inr (only_root_dir\<lparr>opt_hash := Some ''md5''\<rparr>)) silent) = 1 \<and>
   (\<forall>f. main (quiet\<lparr>find_and_print_duplicates := f\<rparr>)
          (Inr (only_root_dir\<lparr>opt_hash := Some ''md5''\<rparr>)) silent =
        main quiet (Inr (only_root_dir\<lparr>opt_hash := Some ''md5''\<rparr>)) silent) \<and>
   main quiet (Inr (only_root_dir\<lparr>opt_hash := Some ''md5''\<rparr>)) silent =
     (1, \<lparr>cout = [],
          cerr = ''Error: Incorrect hash algorithm: md5. Supported algorithms are 'crc32' and 'crc16'.\<newline>''\<rparr>) \<and>
   main quiet (Inr (only_root_dir\<lparr>opt_help := True, opt_hash := Some ''sha1''\<rparr>)) silent =
     (0, print_help quiet silent)"
proof -
  let ?options = "stored_options False (only_root_dir\<lparr>opt_hash := Some ''md5''\<rparr>) [''d'']"
  have no_help: "\<not> show_help ?options"
    by (simp add: stored_options_def)
  have name: "hash_algorithm ?options = ''md5''"
    by (simp add: stored_options_def)
  have valid: "validate_options quiet ?options silent = Returned () silent"
    by (simp add: quiet_def)
  have created: "create_filesystem_traverser quiet ?options silent = Returned () silent"
    by (simp add: quiet_def)
  have unsupported:
    "fst (main quiet (Inr (only_root_dir\<lparr>opt_hash := Some ''md5''\<rparr>)) silent) = 1 \<and>
     (\<forall>f. main (quiet\<lparr>find_and_print_duplicates := f\<rparr>)
            (Inr (only_root_dir\<lparr>opt_hash := Some ''md5''\<rparr>)) silent =
          main quiet (Inr (only_root_dir\<lparr>opt_hash := Some ''md5''\<rparr>)) silent) \<and>
     main quiet (Inr (only_root_dir\<lparr>opt_hash := Some ''md5''\<rparr>)) silent =
       (1, \<lparr>cout = [],
            cerr = ''Error: Incorrect hash algorithm: md5. Supported algorithms are 'crc32' and 'crc16'.\<newline>''\<rparr>)"
    using main_hash_algorithm [where E = quiet
        and argv = "Inr (only_root_dir\<lparr>opt_hash := Some ''md5''\<rparr>)" and w = silent
        and options = ?options and ?w1.0 = silent and u = "()" and ?w2.0 = silent
        and t = "()" and ?w3.0 = silent, THEN conjunct1]
      parse_md5 no_help valid created name
    by (simp add: silent_def)
  have asked: "opt_root_dir (only_root_dir\<lparr>opt_help := True, opt_hash := Some ''sha1''\<rparr>) =
      Some [''d''] \<and> opt_help (only_root_dir\<lparr>opt_help := True, opt_hash := Some ''sha1''\<rparr>)"
    by (simp add: only_root_dir_def)
  have helped:
    "main quiet (Inr (only_root_dir\<lparr>opt_help := True, opt_hash := Some ''sha1''\<rparr>)) silent =
       (0, print_help quiet silent)"
    using main_hash_algorithm [where E = quiet and w = silent and roots = "[''d'']"
        and cl = "only_root_dir\<lparr>opt_help := True, opt_hash := Some ''sha1''\<rparr>",
        THEN conjunct2]
      asked
    by blast
  from unsupported helped show ?thesis by blast
qed

text \<open>
  C7 as stated fails: with \<^verbatim>\<open>--help --root_dir d --hash md5\<close> the help is printed and
  the process ends with status 0 and an empty error stream.
\<close>

theorem help_with_unsupported_hash:
  "main quiet (Inr (only_root_dir\<lparr>opt_help := True, opt_hash := Some ''md5''\<rparr>)) silent =
     (0, \<lparr>cout = ''Allowed options\<newline>'', cerr = []\<rparr>)"
  by (simp add: main_def main_try_def parse_command_line_def stored_options_def and_then_def
      quiet_def only_root_dir_def silent_def)

text \<open>
  C10. A command line that names its root directories parses, and each of the three
  options it leaves out has its default: block size 4096, hash algorithm
  \<^verbatim>\<open>crc32\<close>, minimum file size 1; with that minimum no file of length zero is among
  the candidates the minimum-size filter lets through.
\<close>

theorem parse_command_line_defaults:
  assumes roots: "opt_root_dir cl = Some roots"
  shows
    "\<exists>options w'. parse_command_line E (Inr cl) w = Returned options w' \<and>
       (opt_size cl = None \<longrightarrow> block_size options = 4096) \<and>
       (opt_hash cl = None \<longrightarrow> hash_algorithm options = ''crc32'') \<and>
       (opt_min_file_size cl = None \<longrightarrow>
          min_file_size options = 1 \<and>
          (\<forall>path. (path, 0) \<notin> set (min_file_size_filter (min_file_size options) files)))"
  using roots
  by (simp add: parse_command_line_def stored_options_def min_file_size_filter_def)

text \<open>The command line \<^verbatim>\<open>--root_dir d\<close>, over an empty file and a file of one byte.\<close>

theorem parse_command_line_defaults_witness:
  "\<exists>options w'. parse_command_line quiet (Inr only_root_dir) silent = Returned options w' \<and>
     block_size options = 4096 \<and> hash_algorithm options = ''crc32'' \<and>
     min_file_size options = 1 \<and>
     min_file_size_filter (min_file_size options) [(''empty'', 0), (''one'', 1)] = [(''one'', 1)]"
proof -
  have roots: "opt_root_dir only_root_dir = Some [''d'']"
    by (simp add: only_root_dir_def)
  have omitted: "opt_size only_root_dir = None \<and> opt_hash only_root_dir = None \<and>
      opt_min_file_size only_root_dir = None"
    by (simp add: only_root_dir_def)
  from parse_command_line_defaults [OF roots, of quiet silent "[(''empty'', 0), (''one'', 1)]"]
    omitted
  obtain options w' where
    parsed: "parse_command_line quiet (Inr only_root_dir) silent = Returned options w'" and
    defaults: "block_size options = 4096" "hash_algorithm options = ''crc32''"
      "min_file_size options = 1"
    by auto
  have "min_file_size_filter (min_file_size options) [(''empty'', 0), (''one'', 1)] =
      [(''one'', 1)]"
    by (simp add: defaults min_file_size_filter_def)
  with parsed defaults show ?thesis by blast
qed





section \<open>Properties of the duplicate finder\<close>

lemma partition_by_iff:
  "g \<in> set (partition_by key xs) \<longleftrightarrow> (\<exists>x \<in> set xs. g = filter (\<lambda>y. key y = key x) xs)"
proof (induction key xs rule: partition_by.induct)
  case (1 key)
  then show ?case by simp
next
  case (2 key x xs)
  have shrink: "filter (\<lambda>y. key y = key z) (filter (\<lambda>y. key y \<noteq> key x) xs) =
      filter (\<lambda>y. key y = key z) (x # xs)" if "key z \<noteq> key x" for z
    using that by (auto intro: filter_cong)
  have same: "filter (\<lambda>y. key y = key z) (x # xs) = x # filter (\<lambda>y. key y = key x) xs"
    if "key z = key x" for z
    using that by simp
  show ?case
  proof
    assume "g \<in> set (partition_by key (x # xs))"
    then consider "g = x # filter (\<lambda>y. key y = key x) xs"
      | "g \<in> set (partition_by key (filter (\<lambda>y. key y \<noteq> key x) xs))"
      by auto
    then show "\<exists>z \<in> set (x # xs). g = filter (\<lambda>y. key y = key z) (x # xs)"
    proof cases
      case 1
      then have "g = filter (\<lambda>y. key y = key x) (x # xs)" by simp
      then show ?thesis by (metis list.set_intros(1))
    next
      case 2
      with "2.IH" obtain z where z: "z \<in> set xs" "key z \<noteq> key x"
        and g: "g = filter (\<lambda>y. key y = key z) (filter (\<lambda>y. key y \<noteq> key x) xs)"
        by auto
      from g shrink [OF z(2)] have "g = filter (\<lambda>y. key y = key z) (x # xs)" by simp
      with z(1) show ?thesis by (metis list.set_intros(2))
    qed
  next
    assume "\<exists>z \<in> set (x # xs). g = filter (\<lambda>y. key y = key z) (x # xs)"
    then obtain z where z: "z \<in> set (x # xs)" and g: "g = filter (\<lambda>y. key y = key z) (x # xs)"
      by blast
    show "g \<in> set (partition_by key (x # xs))"
    proof (cases "key z = key x")
      case True
      with g same show ?thesis by simp
    next
      case False
      with z have zin: "z \<in> set (filter (\<lambda>y. key y \<noteq> key x) xs)" by auto
      from g shrink [OF False]
      have "g = filter (\<lambda>y. key y = key z) (filter (\<lambda>y. key y \<noteq> key x) xs)" by simp
      with zin "2.IH" have "g \<in> set (partition_by key (filter (\<lambda>y. key y \<noteq> key x) xs))"
        by blast
      then show ?thesis by simp
    qed
  qed
qed

lemma two_members: "x \<in> set xs \<Longrightarrow> y \<in> set xs \<Longrightarrow> x \<noteq> y \<Longrightarrow> 2 \<le> length xs"
  by (cases xs; cases "tl xs") auto

lemma fst_hash_next: "map fst (map (hash_next H fs bs cursor) members) = map fst members"
  by (simp add: hash_next_def)

lemma refine_paths:
  "g \<in> set (refine H fs bs len cursor members) \<Longrightarrow> set g \<subseteq> fst ` set members"
proof (induction H fs bs len cursor members rule: refine.induct)
  case (1 H fs bs len cursor members)
  show ?case
  proof (cases "len \<le> cursor \<or> bs = 0")
    case True
    with "1.prems" show ?thesis
      by (subst (asm) refine.simps) (auto split: if_splits)
  next
    case False
    with "1.prems" obtain sub where
      sub: "sub \<in> set (filter (\<lambda>g. 2 \<le> length g)
               (partition_by (\<lambda>m. digest H (snd m)) (map (hash_next H fs bs cursor) members)))"
      and g: "g \<in> set (refine H fs bs len (cursor + bs) sub)"
      by (subst (asm) refine.simps) auto
    from "1.IH" [OF False sub g] have "set g \<subseteq> fst ` set sub" .
    moreover from sub have "set sub \<subseteq> set (map (hash_next H fs bs cursor) members)"
      by (auto simp: partition_by_iff)
    then have "fst ` set sub \<subseteq> fst ` set members"
      by (force simp: hash_next_def)
    ultimately show ?thesis by blast
  qed
qed

lemma refine_at_least_two:
  "g \<in> set (refine H fs bs len cursor members) \<Longrightarrow> 2 \<le> length g"
proof (induction H fs bs len cursor members rule: refine.induct)
  case (1 H fs bs len cursor members)
  show ?case
  proof (cases "len \<le> cursor \<or> bs = 0")
    case True
    with "1.prems" show ?thesis
      by (subst (asm) refine.simps) (auto split: if_splits)
  next
    case False
    with "1.prems" obtain sub where
      "sub \<in> set (filter (\<lambda>g. 2 \<le> length g)
               (partition_by (\<lambda>m. digest H (snd m)) (map (hash_next H fs bs cursor) members)))"
      "g \<in> set (refine H fs bs len (cursor + bs) sub)"
      by (subst (asm) refine.simps) auto
    with "1.IH" [OF False] show ?thesis by blast
  qed
qed


lemma together_concat_map:
  "together (concat (map f xs)) p q \<longleftrightarrow> (\<exists>x \<in> set xs. together (f x) p q)"
  by (auto simp: together_def)

lemma distinct_fst_unique:
  "distinct (map fst xs) \<Longrightarrow> (p, a) \<in> set xs \<Longrightarrow> (p, b) \<in> set xs \<Longrightarrow> a = b"
  by (meson eq_key_imp_eq_value)

lemma refine_together:
  assumes "distinct (map fst members)"
    and "(p, sp) \<in> set members" and "(q, sq) \<in> set members" and "p \<noteq> q"
  shows "together (refine H fs bs len cursor members) p q \<longleftrightarrow>
         digests_so_far H bs len cursor (fs p) sp = digests_so_far H bs len cursor (fs q) sq"
  using assms
proof (induction H fs bs len cursor members arbitrary: sp sq rule: refine.induct)
  case (1 H fs bs len cursor members)
  show ?case
  proof (cases "len \<le> cursor \<or> bs = 0")
    case True
    from "1.prems" have "2 \<le> length members"
      by (metis two_members prod.inject)
    moreover from "1.prems" have "p \<in> fst ` set members" "q \<in> fst ` set members"
      by force+
    ultimately have "together (refine H fs bs len cursor members) p q"
      using True by (subst refine.simps) (simp add: together_def)
    moreover have "digests_so_far H bs len cursor (fs p) sp = []"
      "digests_so_far H bs len cursor (fs q) sq = []"
      using True by (subst digests_so_far.simps, simp)+
    ultimately show ?thesis by simp
  next
    case False
    let ?key = "\<lambda>m. digest H (snd m)"
    let ?hashed = "map (hash_next H fs bs cursor) members"
    let ?live = "filter (\<lambda>g. 2 \<le> length g) (partition_by ?key ?hashed)"
    let ?sp = "update H sp (take bs (drop cursor (fs p)))"
    let ?sq = "update H sq (take bs (drop cursor (fs q)))"
    have refine_eq: "refine H fs bs len cursor members =
        concat (map (refine H fs bs len (cursor + bs)) ?live)"
      using False by (subst refine.simps) simp
    have p_eq: "digests_so_far H bs len cursor (fs p) sp =
        digest H ?sp # digests_so_far H bs len (cursor + bs) (fs p) ?sp"
      using False by (subst digests_so_far.simps) simp
    have q_eq: "digests_so_far H bs len cursor (fs q) sq =
        digest H ?sq # digests_so_far H bs len (cursor + bs) (fs q) ?sq"
      using False by (subst digests_so_far.simps) simp
    have dist: "distinct (map fst ?hashed)"
      using "1.prems"(1) unfolding fst_hash_next .
    have p_in: "(p, ?sp) \<in> set ?hashed" and q_in: "(q, ?sq) \<in> set ?hashed"
      using "1.prems"(2,3) by (force simp: hash_next_def read_block_def)+
    have step: "together (refine H fs bs len (cursor + bs) sub) p q \<longleftrightarrow>
        digests_so_far H bs len (cursor + bs) (fs p) ?sp =
        digests_so_far H bs len (cursor + bs) (fs q) ?sq"
      if "sub \<in> set ?live" "(p, ?sp) \<in> set sub" "(q, ?sq) \<in> set sub" for sub
    proof -
      from that(1) obtain x where "sub = filter (\<lambda>y. ?key y = ?key x) ?hashed"
        by (auto simp: partition_by_iff)
      with dist have "distinct (map fst sub)"
        by (simp add: distinct_map_filter)
      from "1.IH" [OF False that(1) this that(2,3) "1.prems"(4)] show ?thesis .
    qed
    show ?thesis
    proof
      assume "together (refine H fs bs len cursor members) p q"
      then obtain sub where sub: "sub \<in> set ?live"
        and tog: "together (refine H fs bs len (cursor + bs) sub) p q"
        unfolding refine_eq together_concat_map by blast
      from tog obtain g where "g \<in> set (refine H fs bs len (cursor + bs) sub)"
        "p \<in> set g" "q \<in> set g"
        by (auto simp: together_def)
      with refine_paths have "p \<in> fst ` set sub" "q \<in> fst ` set sub"
        by blast+
      then obtain a b where ab: "(p, a) \<in> set sub" "(q, b) \<in> set sub"
        by force
      from sub obtain x where x: "sub = filter (\<lambda>y. ?key y = ?key x) ?hashed"
        by (auto simp: partition_by_iff)
      with ab have "(p, a) \<in> set ?hashed" "(q, b) \<in> set ?hashed"
        by auto
      with dist p_in q_in have "a = ?sp" "b = ?sq"
        by (blast dest: distinct_fst_unique)+
      with ab have in_sub: "(p, ?sp) \<in> set sub" "(q, ?sq) \<in> set sub"
        by simp_all
      with x have "digest H ?sp = digest H ?sq"
        by auto
      moreover from step [OF sub in_sub] tog
      have "digests_so_far H bs len (cursor + bs) (fs p) ?sp =
          digests_so_far H bs len (cursor + bs) (fs q) ?sq"
        by simp
      ultimately show "digests_so_far H bs len cursor (fs p) sp =
          digests_so_far H bs len cursor (fs q) sq"
        by (simp add: p_eq q_eq)
    next
      assume "digests_so_far H bs len cursor (fs p) sp =
          digests_so_far H bs len cursor (fs q) sq"
      then have key: "digest H ?sp = digest H ?sq"
        and rest: "digests_so_far H bs len (cursor + bs) (fs p) ?sp =
          digests_so_far H bs len (cursor + bs) (fs q) ?sq"
        by (simp_all add: p_eq q_eq)
      let ?sub = "filter (\<lambda>y. ?key y = ?key (p, ?sp)) ?hashed"
      from p_in q_in key have in_sub: "(p, ?sp) \<in> set ?sub" "(q, ?sq) \<in> set ?sub"
        by simp_all
      with \<open>p \<noteq> q\<close> have "2 \<le> length ?sub"
        by (metis two_members prod.inject)
      moreover from p_in have "?sub \<in> set (partition_by ?key ?hashed)"
        unfolding partition_by_iff by blast
      ultimately have sub: "?sub \<in> set ?live"
        by simp
      from step [OF sub in_sub] rest
      have "together (refine H fs bs len (cursor + bs) ?sub) p q"
        by simp
      with sub show "together (refine H fs bs len cursor members) p q"
        unfolding refine_eq together_concat_map by blast
    qed
  qed
qed


lemma snd_hd_filter:
  "x \<in> set xs \<Longrightarrow> snd x = k \<Longrightarrow> snd (hd (filter (\<lambda>y. snd y = k) xs)) = k"
proof -
  assume "x \<in> set xs" "snd x = k"
  then have "filter (\<lambda>y. snd y = k) xs \<noteq> []"
    by (auto simp: filter_empty_conv)
  then have "hd (filter (\<lambda>y. snd y = k) xs) \<in> set (filter (\<lambda>y. snd y = k) xs)"
    by (rule hd_in_set)
  then show ?thesis by simp
qed

lemma bucket_together:
  assumes dist: "distinct (map fst candidates)"
    and p: "(p, n) \<in> set candidates" and q: "(q, m) \<in> set candidates" and neq: "p \<noteq> q"
  shows "together
           (concat (map (\<lambda>bucket. refine H fs bs (snd (hd bucket)) 0
                           (map (\<lambda>c. (fst c, initial_state H)) bucket))
              (filter (\<lambda>g. 2 \<le> length g) (partition_by snd candidates)))) p q \<longleftrightarrow>
         n = m \<and>
         digests_so_far H bs n 0 (fs p) (initial_state H) =
         digests_so_far H bs n 0 (fs q) (initial_state H)"
    (is "together (concat (map ?R ?live)) p q \<longleftrightarrow> ?same")
proof
  assume "together (concat (map ?R ?live)) p q"
  then obtain b where b: "b \<in> set ?live" and tog: "together (?R b) p q"
    unfolding together_concat_map by blast
  from tog obtain g where "g \<in> set (?R b)" "p \<in> set g" "q \<in> set g"
    by (auto simp: together_def)
  with refine_paths have "p \<in> fst ` set (map (\<lambda>c. (fst c, initial_state H)) b)"
    "q \<in> fst ` set (map (\<lambda>c. (fst c, initial_state H)) b)"
    by blast+
  then obtain n' m' where in_b: "(p, n') \<in> set b" "(q, m') \<in> set b"
    by force
  from b obtain x where x: "b = filter (\<lambda>y. snd y = snd x) candidates"
    by (auto simp: partition_by_iff)
  with in_b have "(p, n') \<in> set candidates" "(q, m') \<in> set candidates"
    and k: "n' = snd x" "m' = snd x"
    by auto
  with dist p q have "n' = n" "m' = m"
    by (blast dest: distinct_fst_unique)+
  with k have nm: "n = m" and kn: "snd x = n"
    by simp_all
  from in_b \<open>n' = n\<close> \<open>m' = m\<close> nm have pb: "(p, n) \<in> set b" and qb: "(q, n) \<in> set b"
    by simp_all
  from x kn p have len: "snd (hd b) = n"
    using snd_hd_filter [of "(p, n)" candidates n] by simp
  from x dist have "distinct (map fst (map (\<lambda>c. (fst c, initial_state H)) b))"
    by (simp add: distinct_map_filter comp_def)
  moreover from pb have "(p, initial_state H) \<in> set (map (\<lambda>c. (fst c, initial_state H)) b)"
    by force
  moreover from qb have "(q, initial_state H) \<in> set (map (\<lambda>c. (fst c, initial_state H)) b)"
    by force
  ultimately have "together (?R b) p q \<longleftrightarrow>
      digests_so_far H bs n 0 (fs p) (initial_state H) =
      digests_so_far H bs n 0 (fs q) (initial_state H)"
    using neq unfolding len by (rule refine_together)
  with tog nm show ?same by simp
next
  assume same: ?same
  let ?b = "filter (\<lambda>y. snd y = snd (p, n)) candidates"
  from same p q have pb: "(p, n) \<in> set ?b" and qb: "(q, n) \<in> set ?b"
    by simp_all
  with neq have "2 \<le> length ?b"
    by (metis two_members prod.inject)
  moreover from p have "?b \<in> set (partition_by snd candidates)"
    unfolding partition_by_iff by blast
  ultimately have b: "?b \<in> set ?live"
    by simp
  from p have len: "snd (hd ?b) = n"
    using snd_hd_filter [of "(p, n)" candidates n] by simp
  from dist have "distinct (map fst (map (\<lambda>c. (fst c, initial_state H)) ?b))"
    by (simp add: distinct_map_filter comp_def)
  moreover from pb have "(p, initial_state H) \<in> set (map (\<lambda>c. (fst c, initial_state H)) ?b)"
    by force
  moreover from qb have "(q, initial_state H) \<in> set (map (\<lambda>c. (fst c, initial_state H)) ?b)"
    by force
  ultimately have "together (?R ?b) p q \<longleftrightarrow>
      digests_so_far H bs n 0 (fs p) (initial_state H) =
      digests_so_far H bs n 0 (fs q) (initial_state H)"
    using neq unfolding len by (rule refine_together)
  with same have "together (?R ?b) p q" by blast
  with b show "together (concat (map ?R ?live)) p q"
    unfolding together_concat_map by blast
qed

text \<open>
  C1, amended. For a block size of at least 1 and candidates with distinct paths the
  finder returns its groups, and two different candidates are together in a group
  exactly when their lengths are equal and their digests so far are equal after every
  block; so two candidates of equal length and identical content are always together,
  and two of different lengths never.
\<close>

theorem same_group_iff_same_digests:
  assumes "0 < bs" and "distinct (map fst candidates)"
    and "(p, n) \<in> set candidates" and "(q, m) \<in> set candidates" and "p \<noteq> q"
  shows "\<exists>groups. duplicate_finder H bs fs candidates = Inr groups \<and>
           (together groups p q \<longleftrightarrow>
              n = m \<and>
              digests_so_far H bs n 0 (fs p) (initial_state H) =
              digests_so_far H bs n 0 (fs q) (initial_state H)) \<and>
           (n = m \<and> fs p = fs q \<longrightarrow> together groups p q)"
  using assms(1) bucket_together [OF assms(2-5), of H fs bs]
  by (simp add: duplicate_finder_def)

text \<open>
  C4. For every block size of at least 1 the finder returns its groups, and every group
  it returns has at least two members.
\<close>

theorem groups_have_two_members:
  assumes "0 < bs"
  shows "\<exists>groups. duplicate_finder H bs fs candidates = Inr groups \<and>
           (\<forall>g \<in> set groups. 2 \<le> length g)"
  using assms by (auto simp: duplicate_finder_def refine_at_least_two)

lemma collision_exists:
  fixes H :: "('s, 'd::finite) hash"
  assumes small: "CARD('d) < 256 ^ n"
  shows "\<exists>a b. a \<noteq> b \<and> length a = n \<and> length b = n \<and>
           digest H (update H (initial_state H) a) = digest H (update H (initial_state H) b)"
proof -
  let ?A = "{xs :: byte list. set xs \<subseteq> UNIV \<and> length xs = n}"
  let ?f = "\<lambda>xs. digest H (update H (initial_state H) xs)"
  have "card ?A = CARD(byte) ^ n"
    by (rule card_lists_length_eq) simp
  then have A: "card ?A = 256 ^ n"
    by (simp add: card_word)
  have "card (?f ` ?A) \<le> CARD('d)"
    by (rule card_mono) simp_all
  with small A have "card (?f ` ?A) < card ?A"
    by simp
  then have "\<not> inj_on ?f ?A"
    by (rule pigeonhole)
  then show ?thesis
    unfolding inj_on_def by auto
qed


lemma colliding_pair_grouped:
  assumes "a \<noteq> b" "length a = n" "length b = n" "0 < n" "n \<le> bs"
    and "digest H (update H (initial_state H) a) = digest H (update H (initial_state H) b)"
  shows "duplicate_finder H bs (two_files a b) [(''p'', n), (''q'', n)] = Inr [[''p'', ''q'']]"
proof -
  have step: "refine H (two_files a b) bs n 0 [(''p'', initial_state H), (''q'', initial_state H)] =
      refine H (two_files a b) bs n bs
        [(''p'', update H (initial_state H) a), (''q'', update H (initial_state H) b)]"
    using assms by (subst refine.simps) (simp add: hash_next_def read_block_def two_files_def)
  have last: "refine H (two_files a b) bs n bs
        [(''p'', update H (initial_state H) a), (''q'', update H (initial_state H) b)] =
      [[''p'', ''q'']]"
    using assms by (subst refine.simps) simp
  from assms show ?thesis
    by (simp add: duplicate_finder_def step last)
qed

text \<open>
  C1 as stated fails. Whatever the hash, a digest of 16 bits cannot tell all files of
  three bytes apart, nor a digest of 32 bits all files of five bytes: with the default
  block size there are two files of equal length and different content that the finder
  returns as one group. With the additive checksum the files \<open>1, 2\<close> and \<open>2, 1\<close> are
  such a pair.
\<close>

theorem colliding_files_are_grouped:
  "(\<forall>H :: ('s, 16 word) hash. \<exists>a b. a \<noteq> b \<and> length a = 3 \<and> length b = 3 \<and>
      duplicate_finder H 4096 (two_files a b) [(''p'', 3), (''q'', 3)] = Inr [[''p'', ''q'']]) \<and>
   (\<forall>H :: ('t, 32 word) hash. \<exists>a b. a \<noteq> b \<and> length a = 5 \<and> length b = 5 \<and>
      duplicate_finder H 4096 (two_files a b) [(''p'', 5), (''q'', 5)] = Inr [[''p'', ''q'']]) \<and>
   [1, 2] \<noteq> [2, 1 :: byte] \<and>
   duplicate_finder sum16 4096 (two_files [1, 2] [2, 1]) [(''p'', 2), (''q'', 2)] =
     Inr [[''p'', ''q'']]"
proof (intro conjI allI)
  fix H :: "('s, 16 word) hash"
  have "CARD(16 word) < 256 ^ 3"
    by (simp add: card_word)
  from collision_exists [OF this, of H] obtain a b where
    "a \<noteq> b" "length a = 3" "length b = 3"
    "digest H (update H (initial_state H) a) = digest H (update H (initial_state H) b)"
    by blast
  then show "\<exists>a b. a \<noteq> b \<and> length a = 3 \<and> length b = 3 \<and>
      duplicate_finder H 4096 (two_files a b) [(''p'', 3), (''q'', 3)] = Inr [[''p'', ''q'']]"
    using colliding_pair_grouped [of a b 3 4096 H] by auto
next
  fix H :: "('t, 32 word) hash"
  have "CARD(32 word) < 256 ^ 5"
    by (simp add: card_word)
  from collision_exists [OF this, of H] obtain a b where
    "a \<noteq> b" "length a = 5" "length b = 5"
    "digest H (update H (initial_state H) a) = digest H (update H (initial_state H) b)"
    by blast
  then show "\<exists>a b. a \<noteq> b \<and> length a = 5 \<and> length b = 5 \<and>
      duplicate_finder H 4096 (two_files a b) [(''p'', 5), (''q'', 5)] = Inr [[''p'', ''q'']]"
    using colliding_pair_grouped [of a b 5 4096 H] by auto
next
  show "[1, 2] \<noteq> [2, 1 :: byte]"
    by simp
next
  show "duplicate_finder sum16 4096 (two_files [1, 2] [2, 1]) [(''p'', 2), (''q'', 2)] =
      Inr [[''p'', ''q'']]"
    by (rule colliding_pair_grouped) (simp_all add: sum16_def)
qed

lemma finder_scenario_a: "duplicate_finder sum16 3 abc scenario_a = Inr [[''F1'', ''F2'']]"
  by code_simp

text \<open>
  Scenario A with block size 3: the two files \<^verbatim>\<open>abcabc\<close> are together and their digests
  agree, the file \<^verbatim>\<open>abcabd\<close> is apart from them and its digests differ.
\<close>

theorem same_group_iff_same_digests_witness:
  "duplicate_finder sum16 3 abc scenario_a = Inr [[''F1'', ''F2'']] \<and>
   together [[''F1'', ''F2'']] ''F1'' ''F2'' \<and>
   digests_so_far sum16 3 6 0 (abc ''F1'') (initial_state sum16) =
     digests_so_far sum16 3 6 0 (abc ''F2'') (initial_state sum16) \<and>
   \<not> together [[''F1'', ''F2'']] ''F1'' ''F3'' \<and>
   digests_so_far sum16 3 6 0 (abc ''F1'') (initial_state sum16) \<noteq>
     digests_so_far sum16 3 6 0 (abc ''F3'') (initial_state sum16)"
proof -
  have size: "0 < (3::nat)" and paths: "distinct (map fst scenario_a)"
    and f1: "(''F1'', 6) \<in> set scenario_a" and f2: "(''F2'', 6) \<in> set scenario_a"
    and f3: "(''F3'', 6) \<in> set scenario_a"
    and different: "''F1'' \<noteq> ''F2''" "''F1'' \<noteq> ''F3''"
    by (simp_all add: scenario_a_def)
  have same: "abc ''F1'' = abc ''F2''"
    by (simp add: abc_def)
  from same_group_iff_same_digests [OF size paths f1 f2 different(1), of sum16 abc]
  have pair: "together [[''F1'', ''F2'']] ''F1'' ''F2'' \<and>
      digests_so_far sum16 3 6 0 (abc ''F1'') (initial_state sum16) =
      digests_so_far sum16 3 6 0 (abc ''F2'') (initial_state sum16)"
    using same by (auto simp: finder_scenario_a)
  have apart: "\<not> together [[''F1'', ''F2'']] ''F1'' ''F3''"
    by (simp add: together_def)
  from same_group_iff_same_digests [OF size paths f1 f3 different(2), of sum16 abc] apart
  have "digests_so_far sum16 3 6 0 (abc ''F1'') (initial_state sum16) \<noteq>
      digests_so_far sum16 3 6 0 (abc ''F3'') (initial_state sum16)"
    by (auto simp: finder_scenario_a)
  with pair apart show ?thesis
    by (simp add: finder_scenario_a)
qed

text \<open>Scenario A again: its one group has two members.\<close>

theorem groups_have_two_members_witness:
  "duplicate_finder sum16 3 abc scenario_a = Inr [[''F1'', ''F2'']] \<and>
   2 \<le> length [''F1'', ''F2'']"
proof -
  have size: "0 < (3::nat)"
    by simp
  from groups_have_two_members [OF size, of sum16 abc scenario_a]
  show ?thesis by (simp add: finder_scenario_a)
qed

end
